theory Spec2Isabelle
  imports Complex_Main
begin

section \<open>JavaScript strings\<close>

text \<open>
  A JavaScript string is a sequence of UTF-16 code units. The development reads a HOL
  \<^typ>\<open>char\<close> as one code unit in the range U+0000 .. U+00FF, so \<^typ>\<open>string\<close> covers
  exactly the strings all of whose code units lie below 256. The primitives below are the
  restrictions of the ECMAScript ones to that range; none of them leaves it.
\<close>

text \<open>
  The characters matched by the regular-expression class \<^verbatim>\<open>\s\<close> and removed by
  \<^verbatim>\<open>String.prototype.trim\<close> (WhiteSpace and LineTerminator): TAB, LF, VT, FF, CR, SP
  and NBSP are the ones below 256.
\<close>

definition isWhiteSpace :: "char \<Rightarrow> bool" where
  "isWhiteSpace c \<longleftrightarrow>
     c \<in> set [CHR 0x09, CHR 0x0A, CHR 0x0B, CHR 0x0C, CHR 0x0D, CHR 0x20, CHR 0xA0]"

definition trimStart :: "string \<Rightarrow> string" where
  "trimStart s = dropWhile isWhiteSpace s"

definition trimEnd :: "string \<Rightarrow> string" where
  "trimEnd s = rev (dropWhile isWhiteSpace (rev s))"

definition trim :: "string \<Rightarrow> string" where
  "trim s = trimEnd (trimStart s)"

text \<open>
  \<^verbatim>\<open>String.prototype.toLowerCase\<close>: below 256 the upper-case letters are A .. Z and
  U+00C0 .. U+00DE without the multiplication sign U+00D7; each is mapped 32 places up.
\<close>

definition toLowerCaseChar :: "char \<Rightarrow> char" where
  "toLowerCaseChar c =
     (let n = (of_char c :: nat)
      in if (65 \<le> n \<and> n \<le> 90) \<or> (192 \<le> n \<and> n \<le> 222 \<and> n \<noteq> 215)
         then char_of (n + 32) else c)"

definition toLowerCase :: "string \<Rightarrow> string" where
  "toLowerCase s = map toLowerCaseChar s"

text \<open>
  The canonicalisation that a regular expression with the \<^verbatim>\<open>i\<close> flag (and without the
  \<^verbatim>\<open>u\<close> flag) applies to both the pattern character and the input character: the
  upper-case form of the single code unit. The code units U+00B5, U+00DF and U+00FF have no
  single-unit upper-case form below 256 and no other code unit below 256 shares theirs, so
  they stand for themselves.
\<close>

definition canonicalize :: "char \<Rightarrow> char" where
  "canonicalize c =
     (let n = (of_char c :: nat)
      in if (97 \<le> n \<and> n \<le> 122) \<or> (224 \<le> n \<and> n \<le> 254 \<and> n \<noteq> 247)
         then char_of (n - 32) else c)"

text \<open>
  The text that a template literal prints for a non-negative integer below \<open>10\<^sup>2\<^sup>1\<close>
  (here: array positions and their successors): its decimal digits, most significant first.
\<close>

definition digitChar :: "nat \<Rightarrow> char" where
  "digitChar d = ''0123456789'' ! d"

fun numberToString :: "nat \<Rightarrow> string" where
  "numberToString n =
     (if n < 10 then [digitChar n] else numberToString (n div 10) @ [digitChar (n mod 10)])"

declare numberToString.simps [simp del]

text \<open>
  \<^verbatim>\<open>xs[i]\<close> on an array: \<^verbatim>\<open>undefined\<close> (here \<^term>\<open>None\<close>) outside the array.
\<close>

definition js_index :: "'a list \<Rightarrow> nat \<Rightarrow> 'a option" where
  "js_index xs i = (if i < length xs then Some (xs ! i) else None)"

text \<open>
  Truthiness of a value of type \<^verbatim>\<open>string | undefined\<close>: only \<^verbatim>\<open>undefined\<close> and the
  empty string are falsy.
\<close>

definition truthy :: "string option \<Rightarrow> bool" where
  "truthy v \<longleftrightarrow> (case v of None \<Rightarrow> False | Some s \<Rightarrow> s \<noteq> [])"


section \<open>The gallery: \<^verbatim>\<open>ImageDisplay\<close>\<close>

subsection \<open>Enlarging\<close>

text \<open>
  The component state \<^verbatim>\<open>enlargedImage : number | null\<close>.
  \<^verbatim>\<open>handleImageClick(index)\<close> is
  \<^verbatim>\<open>setEnlargedImage(enlargedImage === index ? null : index)\<close> and
  \<^verbatim>\<open>handleBackdropClick()\<close> is \<^verbatim>\<open>setEnlargedImage(null)\<close>.
\<close>

definition handleImageClick :: "nat \<Rightarrow> nat option \<Rightarrow> nat option" where
  "handleImageClick index enlargedImage =
     (if enlargedImage = Some index then None else Some index)"

definition handleBackdropClick :: "nat option \<Rightarrow> nat option" where
  "handleBackdropClick enlargedImage = None"

subsection \<open>Download file names\<close>

text \<open>\<^verbatim>\<open>.replace(/[^a-z0-9\s-]/g, "")\<close>: every character outside the class is deleted.\<close>

definition isFilenameChar :: "char \<Rightarrow> bool" where
  "isFilenameChar c \<longleftrightarrow>
     (let n = (of_char c :: nat)
      in (97 \<le> n \<and> n \<le> 122) \<or> (48 \<le> n \<and> n \<le> 57) \<or> isWhiteSpace c \<or> c = CHR ''-'')"

definition removeSpecialChars :: "string \<Rightarrow> string" where
  "removeSpecialChars s = filter isFilenameChar s"

text \<open>
  \<^verbatim>\<open>.replace(/\s+/g, "-")\<close>: scanning from the left, each maximal run of white space
  (the quantifier is greedy) is replaced by one hyphen.
\<close>

function hyphenateWhiteSpace :: "string \<Rightarrow> string" where
  "hyphenateWhiteSpace [] = []"
| "hyphenateWhiteSpace (c # cs) =
     (if isWhiteSpace c then CHR ''-'' # hyphenateWhiteSpace (dropWhile isWhiteSpace cs)
      else c # hyphenateWhiteSpace cs)"
  by pat_completeness auto
termination
  by (relation "measure length") (auto simp: le_imp_less_Suc length_dropWhile_le)

text \<open>
  In the words of the specification, white-space runs are collapsed to single hyphens: the
  string is cut into its maximal runs of white space and of other characters, and each run
  of white space is replaced by one hyphen. This second definition is the one the file name
  is compared with below.
\<close>

function runs :: "string \<Rightarrow> string list" where
  "runs [] = []"
| "runs (c # cs) =
     (c # takeWhile (\<lambda>x. isWhiteSpace x = isWhiteSpace c) cs)
       # runs (dropWhile (\<lambda>x. isWhiteSpace x = isWhiteSpace c) cs)"
  by pat_completeness auto
termination
  by (relation "measure length") (auto simp: le_imp_less_Suc length_dropWhile_le)

definition collapseWhiteSpaceRuns :: "string \<Rightarrow> string" where
  "collapseWhiteSpaceRuns s =
     concat (map (\<lambda>run. if isWhiteSpace (hd run) then ''-'' else run) (runs s))"

text \<open>
  The chain of string methods that \<^verbatim>\<open>handleDownload\<close> applies to a description:
  \<^verbatim>\<open>toLowerCase\<close>, the two replacements with \<^verbatim>\<open>trim\<close> between them, and
  \<^verbatim>\<open>substring(0, 30)\<close>.
\<close>

definition cleanDescription :: "string \<Rightarrow> string" where
  "cleanDescription description =
     take 30 (hyphenateWhiteSpace (trim (removeSpecialChars (toLowerCase description))))"

text \<open>
  The file name that \<^verbatim>\<open>handleDownload\<close> gives the link, from the index and
  \<^verbatim>\<open>descriptions[index]\<close>. The test \<^verbatim>\<open>if (description)\<close> is one of truthiness.
\<close>

definition computeDownloadFilename :: "nat \<Rightarrow> string option \<Rightarrow> string" where
  "computeDownloadFilename index description =
     (let filename =
        (if truthy description
         then ''law-meme-'' @ cleanDescription (the description)
         else ''law-meme-'' @ numberToString (index + 1))
      in filename @ ''.png'')"

record download_link =
  href :: string
  download :: string

text \<open>
  \<^verbatim>\<open>handleDownload(index, e)\<close>: outside \<^verbatim>\<open>0 <= index < images.length\<close> nothing is
  downloaded; inside, the link that is created, clicked and removed.
\<close>

definition handleDownload :: "string list \<Rightarrow> string list \<Rightarrow> int \<Rightarrow> download_link option" where
  "handleDownload images descriptions index =
     (if 0 \<le> index \<and> index < int (length images)
      then Some \<lparr>href = ''data:image/png;base64,'' @ images ! nat index,
                 download = computeDownloadFilename (nat index) (js_index descriptions (nat index))\<rparr>
      else None)"

subsection \<open>The caption of the enlarged image\<close>

text \<open>
  Matching a word of the pattern at the start of the input under the \<^verbatim>\<open>i\<close> flag; the
  result is the rest of the input behind the match.
\<close>

fun matchIgnoreCase :: "string \<Rightarrow> string \<Rightarrow> string option" where
  "matchIgnoreCase [] s = Some s"
| "matchIgnoreCase (p # ps) [] = None"
| "matchIgnoreCase (p # ps) (c # cs) =
     (if canonicalize c = canonicalize p then matchIgnoreCase ps cs else None)"

text \<open>The optional class \<^verbatim>\<open>[.:,]?\<close>, greedy.\<close>

fun dropPunctuation :: "string \<Rightarrow> string" where
  "dropPunctuation [] = []"
| "dropPunctuation (c # cs) =
     (if c = CHR ''.'' \<or> c = CHR '':'' \<or> c = CHR '','' then cs else c # cs)"

text \<open>
  \<^verbatim>\<open>/^square\s+image[.:,]?\s*/i\<close> against the input: the rest behind the match, or
  \<^term>\<open>None\<close> when the pattern does not match at the start. \<^verbatim>\<open>\s+\<close> takes the whole run
  of white space, since the letter that must follow is not white space; the two trailing
  quantifiers are greedy and nothing follows them.
\<close>

definition matchSquareSpaceImage :: "string \<Rightarrow> string option" where
  "matchSquareSpaceImage s =
     (case matchIgnoreCase ''square'' s of
        None \<Rightarrow> None
      | Some r \<Rightarrow>
          (if takeWhile isWhiteSpace r = [] then None
           else (case matchIgnoreCase ''image'' (dropWhile isWhiteSpace r) of
                   None \<Rightarrow> None
                 | Some r' \<Rightarrow> Some (dropWhile isWhiteSpace (dropPunctuation r')))))"

text \<open>\<^verbatim>\<open>/^squareimage[.:,]?\s*/i\<close> against the input.\<close>

definition matchSquareimage :: "string \<Rightarrow> string option" where
  "matchSquareimage s =
     (case matchIgnoreCase ''squareimage'' s of
        None \<Rightarrow> None
      | Some r' \<Rightarrow> Some (dropWhile isWhiteSpace (dropPunctuation r')))"

text \<open>
  \<^verbatim>\<open>s.replace(re, "")\<close> for a pattern anchored at the start and without the \<^verbatim>\<open>g\<close>
  flag: the match, if any, is cut off.
\<close>

definition replaceWithEmpty :: "(string \<Rightarrow> string option) \<Rightarrow> string \<Rightarrow> string" where
  "replaceWithEmpty re s = (case re s of None \<Rightarrow> s | Some r \<Rightarrow> r)"

text \<open>
  The text shown behind the label \<^verbatim>\<open>Prompt:\<close>, from \<^verbatim>\<open>descriptions[enlargedImage]\<close>.
\<close>

definition computeDisplayDescription :: "string \<Rightarrow> string" where
  "computeDisplayDescription raw =
     trim (replaceWithEmpty matchSquareimage (replaceWithEmpty matchSquareSpaceImage raw))"


section \<open>The service client: \<^verbatim>\<open>services/api.ts\<close>\<close>

text \<open>
  What a promise can be rejected with, and what a \<^verbatim>\<open>throw\<close> raises: an
  \<^verbatim>\<open>Error\<close> with its message, the \<^verbatim>\<open>TypeError\<close> of a property read on
  \<^verbatim>\<open>undefined\<close>, and a failure of the transport library.
\<close>

datatype js_error = Error string | TypeError | AxiosError

text \<open>The declared shape of a response: \<^verbatim>\<open>GeminiImagePart\<close> and \<^verbatim>\<open>GeminiResponse\<close>.\<close>

record inline_data =
  mimeType :: string
  data :: string

record GeminiImagePart =
  partText :: "string option"
  inlineData :: "inline_data option"

record candidate =
  contentParts :: "GeminiImagePart list"

record GeminiResponse =
  candidates :: "candidate list"

text \<open>\<^verbatim>\<open>s.split("\n")\<close>: the pieces between line feeds; one piece more than line feeds.\<close>

fun splitLines :: "string \<Rightarrow> string list" where
  "splitLines [] = [[]]"
| "splitLines (c # cs) =
     (if c = CHR 0x0A then [] # splitLines cs
      else (case splitLines cs of
              [] \<Rightarrow> [[c]]
            | l # ls \<Rightarrow> (c # l) # ls))"

text \<open>
  The inverse of \<^const>\<open>splitLines\<close>, \<^verbatim>\<open>lines.join("\n")\<close>: used to say what the lines of a
  text are.
\<close>

fun joinLines :: "string list \<Rightarrow> string" where
  "joinLines [] = []"
| "joinLines [l] = l"
| "joinLines (l # m # ls) = l @ CHR 0x0A # joinLines (m # ls)"

definition lawMemeInstructions :: string where
  "lawMemeInstructions =
     ''You are a NZ law meme generator. Create 4 different humorous, witty, and creative meme descriptions related to law, legal concepts, lawyers, judges, courtrooms, or legal proceedings. Each description clear and be detailed enough to create a unique and entertaining visual meme. Make sure to include very different formats, including cartoons, pictures with text, doge, and 4-panel comics. Do not include more than 12 words for the text conent of each meme (the description should be much more than 12 words). Respond with exactly 4 descriptions, each on a new line, without any additional text, numbering, or formatting. Make sure to include details of the user'' @ [CHR 0x27] @
     ''s prompt, like names, places or concepts given in every meme description. Each description MUST state at the beginning '' @ [CHR 0x27] @
     ''Square image.'' @ [CHR 0x27]"

text \<open>The template literal \<^verbatim>\<open>`${lawMemeInstructions}\n\nTopic: ${prompt}`\<close>.\<close>

definition descriptionRequestText :: "string \<Rightarrow> string" where
  "descriptionRequestText prompt =
     lawMemeInstructions @ [CHR 0x0A, CHR 0x0A] @ ''Topic: '' @ prompt"

definition textModelUrl :: "string \<Rightarrow> string" where
  "textModelUrl apiKey =
     ''https://generativelanguage.googleapis.com/v1beta/models/gemini-2.0-flash:generateContent?key='' @ apiKey"

definition imageModelUrl :: "string \<Rightarrow> string" where
  "imageModelUrl apiKey =
     ''https://generativelanguage.googleapis.com/v1beta/models/gemini-2.0-flash-exp-image-generation:generateContent?key='' @ apiKey"

text \<open>
  The two clients take the value of the constant \<^verbatim>\<open>GEMINI_API_KEY\<close> (its module is not
  part of the sources at hand) and the outcome of \<^verbatim>\<open>axios.post\<close> as a function of the
  URL and of the text of the request's single part: \<^term>\<open>Inl\<close> when the promise is
  rejected. The body of each \<^verbatim>\<open>try\<close> block comes first, then the function with its
  \<^verbatim>\<open>catch\<close>; \<^term>\<open>Inl\<close> in the result of the latter would be a rejected promise.
\<close>

definition generateMemeDescriptions_try ::
  "string option \<Rightarrow> (string \<Rightarrow> string \<Rightarrow> js_error + GeminiResponse) \<Rightarrow> string
     \<Rightarrow> js_error + string list" where
  "generateMemeDescriptions_try apiKey post prompt =
     (if \<not> truthy apiKey then Inl (Error ''API key is not defined. Check your configuration.'')
      else
        (case post (textModelUrl (the apiKey)) (descriptionRequestText prompt) of
           Inl err \<Rightarrow> Inl err
         | Inr response \<Rightarrow>
             (case candidates response of
                [] \<Rightarrow> Inl TypeError
              | c # _ \<Rightarrow>
                  (case find (\<lambda>part. truthy (partText part)) (contentParts c) of
                     None \<Rightarrow> Inr []
                   | Some textPart \<Rightarrow>
                       (if truthy (partText textPart)
                        then Inr (take 4 (filter (\<lambda>line. trim line \<noteq> [])
                                            (splitLines (the (partText textPart)))))
                        else Inr [])))))"

definition generateMemeDescriptions ::
  "string option \<Rightarrow> (string \<Rightarrow> string \<Rightarrow> js_error + GeminiResponse) \<Rightarrow> string
     \<Rightarrow> js_error + string list" where
  "generateMemeDescriptions apiKey post prompt =
     (case generateMemeDescriptions_try apiKey post prompt of
        Inl err \<Rightarrow> Inr []
      | Inr descriptions \<Rightarrow> Inr descriptions)"

definition makeGeminiRequest_try ::
  "string option \<Rightarrow> (string \<Rightarrow> string \<Rightarrow> js_error + GeminiResponse) \<Rightarrow> string
     \<Rightarrow> js_error + string" where
  "makeGeminiRequest_try apiKey post prompt =
     (if \<not> truthy apiKey then Inl (Error ''API key is not defined. Check your configuration.'')
      else
        (case post (imageModelUrl (the apiKey)) prompt of
           Inl err \<Rightarrow> Inl err
         | Inr response \<Rightarrow>
             (case candidates response of
                [] \<Rightarrow> Inl TypeError
              | c # _ \<Rightarrow>
                  (case find (\<lambda>part. inlineData part \<noteq> None) (contentParts c) of
                     None \<Rightarrow> Inr []
                   | Some imagePart \<Rightarrow>
                       (case inlineData imagePart of
                          Some d \<Rightarrow> Inr (data d)
                        | None \<Rightarrow> Inr [])))))"

definition makeGeminiRequest ::
  "string option \<Rightarrow> (string \<Rightarrow> string \<Rightarrow> js_error + GeminiResponse) \<Rightarrow> string
     \<Rightarrow> js_error + string" where
  "makeGeminiRequest apiKey post prompt =
     (case makeGeminiRequest_try apiKey post prompt of
        Inl err \<Rightarrow> Inr []
      | Inr imageData \<Rightarrow> Inr imageData)"


section \<open>The orchestrator: \<^verbatim>\<open>App\<close>\<close>

text \<open>
  The state variables of the component. \<^verbatim>\<open>text\<close> is the content of the input;
  \<^verbatim>\<open>loadingProgress\<close> is a JavaScript number, kept here as an exact rational (the
  handler writes 0, 30, 30 + (70 / K) * n and 100; only the values 0 and 100 survive a run
  of the handler, and both are exact in either arithmetic).
\<close>

record app_state =
  isFocused :: bool
  textInput :: string
  isLoading :: bool
  showResults :: bool
  images :: "string list"
  error :: "string option"
  loadingProgress :: rat
  descriptions :: "string list"

text \<open>
  What the handler does to the outside, in the order in which it does it: a call of
  \<^verbatim>\<open>generateMemeDescriptions\<close> or of \<^verbatim>\<open>makeGeminiRequest\<close> (the request leaves
  within that call), and the handler's resumption from an \<^verbatim>\<open>await\<close> with the outcome
  of the description promise or of the image promise at a position. The handler runs without
  interruption between two of its \<^verbatim>\<open>await\<close>s, so no outcome reaches it, and no
  request can complete, between two events that are adjacent in the trace unless the later
  one is an \<^verbatim>\<open>await\<close>.
\<close>

datatype event =
    DescriptionRequested string
  | DescriptionAwaited
  | ImageRequested nat string
  | ImageAwaited nat

text \<open>
  The loop over \<^verbatim>\<open>imagePromises\<close>, from position \<open>i\<close> on: \<open>len\<close> is
  \<^verbatim>\<open>imagePromises.length\<close>, the list holds the outcomes of the promises still to be
  awaited, and \<^verbatim>\<open>generatedImages\<close>, the state and the trace are threaded through.
  A rejected promise is caught inside the loop and leaves the empty string.
\<close>

fun awaitImages ::
  "nat \<Rightarrow> (js_error + string) list \<Rightarrow> nat \<Rightarrow> string list \<Rightarrow> app_state \<Rightarrow> event list
     \<Rightarrow> string list \<times> app_state \<times> event list" where
  "awaitImages len [] i generatedImages st tr = (generatedImages, st, tr)"
| "awaitImages len (p # ps) i generatedImages st tr =
     (case p of
        Inr imageData \<Rightarrow>
          (let generatedImages' = generatedImages @ [imageData];
               progressIncrement = 70 / of_nat len
           in awaitImages len ps (i + 1) generatedImages'
                (st\<lparr>loadingProgress := 30 + progressIncrement * of_nat (length generatedImages')\<rparr>)
                (tr @ [ImageAwaited i]))
      | Inl err \<Rightarrow>
          awaitImages len ps (i + 1) (generatedImages @ ['''']) st (tr @ [ImageAwaited i]))"

text \<open>
  The callback handed to \<^verbatim>\<open>setTimeout\<close>: the two filters and the four state updates.
  \<^verbatim>\<open>memeDescriptions.filter((_, index) => generatedImages[index] !== "")\<close> reads
  \<^verbatim>\<open>generatedImages\<close> at the position of each description.
\<close>

definition publishResults :: "string list \<Rightarrow> string list \<Rightarrow> app_state \<Rightarrow> app_state" where
  "publishResults memeDescriptions generatedImages st =
     (let validImages = filter (\<lambda>img. img \<noteq> '''') generatedImages;
          validDescriptions =
            map snd (filter (\<lambda>(index, _). js_index generatedImages index \<noteq> Some '''')
                            (enumerate 0 memeDescriptions))
      in st\<lparr>images := validImages, descriptions := validDescriptions,
            isLoading := False, showResults := True\<rparr>)"

text \<open>The \<^verbatim>\<open>catch\<close> block of the handler.\<close>

definition failGeneration :: "app_state \<Rightarrow> app_state" where
  "failGeneration st =
     st\<lparr>error := Some ''Failed to generate images. Please try again.'', isLoading := False\<rparr>"

text \<open>
  \<^verbatim>\<open>handleSubmit\<close>, run to its end (the timer callback included): the state it leaves
  and the trace of its calls. Only the handler's own writes to the state are recorded; the
  interval effect that moves \<^verbatim>\<open>loadingProgress\<close> towards 30 while the description call
  is pending is a separate effect of the component. The parameters are the value of
  \<^verbatim>\<open>GEMINI_API_KEY\<close>, the outcome of the description call as a function of the topic,
  and the outcome of the image call made for the description at a position (\<^term>\<open>Inl\<close>:
  the promise is rejected).
\<close>

definition handleSubmit ::
  "string option \<Rightarrow> (string \<Rightarrow> js_error + string list) \<Rightarrow> (nat \<Rightarrow> string \<Rightarrow> js_error + string)
     \<Rightarrow> app_state \<Rightarrow> app_state \<times> event list" where
  "handleSubmit apiKey descriptionCall imageCall st =
     (if trim (textInput st) = [] \<or> isLoading st then (st, [])
      else if \<not> truthy apiKey then
        (st\<lparr>error := Some ''API key is missing. Please check your .env or .env.local file and make sure REACT_APP_GEMINI_API_KEY is set.''\<rparr>, [])
      else
        (let st1 = st\<lparr>isLoading := True, loadingProgress := 0, error := None, images := [],
                      descriptions := [], showResults := False\<rparr>;
             tr1 = [DescriptionRequested (textInput st), DescriptionAwaited]
         in case descriptionCall (textInput st) of
              Inl err \<Rightarrow> (failGeneration st1, tr1)
            | Inr memeDescriptions \<Rightarrow>
                (if length memeDescriptions = 0 then (failGeneration st1, tr1)
                 else
                   (let st2 = st1\<lparr>descriptions := memeDescriptions, loadingProgress := 30\<rparr>;
                        imagePromises =
                          map (\<lambda>(index, description). imageCall index description)
                              (enumerate 0 memeDescriptions);
                        tr2 = tr1 @ map (\<lambda>(index, description). ImageRequested index description)
                                        (enumerate 0 memeDescriptions);
                        (generatedImages, st3, tr3) =
                          awaitImages (length imagePromises) imagePromises 0 [] st2 tr2;
                        st4 = st3\<lparr>loadingProgress := 100\<rparr>
                    in (publishResults memeDescriptions generatedImages st4, tr3)))))"

text \<open>
  The two orderings of a trace that are asked of the handler: no image request before the
  description promise has been awaited, and no image request at position \<open>i + 1\<close> before
  the promise at position \<open>i\<close> has been awaited (an earlier request cannot be known, nor
  have had the chance, to be complete before that).
\<close>

definition descriptionAwaitedFirst :: "event list \<Rightarrow> bool" where
  "descriptionAwaitedFirst tr \<longleftrightarrow>
     list_all (\<lambda>k. case tr ! k of
                      ImageRequested i d \<Rightarrow> DescriptionAwaited \<in> set (take k tr)
                    | _ \<Rightarrow> True)
              [0..<length tr]"

definition imagesIssuedOneAtATime :: "event list \<Rightarrow> bool" where
  "imagesIssuedOneAtATime tr \<longleftrightarrow>
     list_all (\<lambda>k. case tr ! k of
                      ImageRequested i d \<Rightarrow> i = 0 \<or> ImageAwaited (i - 1) \<in> set (take k tr)
                    | _ \<Rightarrow> True)
              [0..<length tr]"


text \<open>
  What the loop of \<^verbatim>\<open>handleSubmit\<close> stores for a settled image promise: its value, or
  the empty string when it was rejected.
\<close>

definition settledImage :: "js_error + string \<Rightarrow> string" where
  "settledImage p = (case p of Inl err \<Rightarrow> '''' | Inr imageData \<Rightarrow> imageData)"

text \<open>
  For the examples: a state in which a submission is accepted, a description call that
  returns two descriptions, and an image call that returns a payload for every description.
\<close>

definition exampleState :: app_state where
  "exampleState =
     \<lparr>isFocused = True, textInput = ''contract law'', isLoading = False, showResults = False,
      images = [], error = None, loadingProgress = 0, descriptions = []\<rparr>"

definition twoDescriptions :: "string \<Rightarrow> js_error + string list" where
  "twoDescriptions topic = Inr [''d0'', ''d1'']"

definition everyImage :: "nat \<Rightarrow> string \<Rightarrow> js_error + string" where
  "everyImage index description = Inr (''img-'' @ description)"


section \<open>Properties of the gallery\<close>

subsection \<open>Selecting an item\<close>

text \<open>
  Claim C8. For every item index \<open>i\<close> and every state of the enlarged selection, selecting
  \<open>i\<close> sets the selection to \<open>i\<close> when it is unset or set to another index, and clears it
  when it is \<open>i\<close> already. Hence selecting \<open>i\<close> twice in a row, starting from no selection
  (or from any selection other than \<open>i\<close>), ends with no selection; and selecting \<open>i\<close>
  while a different item \<open>j\<close> is enlarged switches to \<open>i\<close> in one step, with no
  \<^const>\<open>handleBackdropClick\<close> in between.
\<close>

theorem handleImageClick_toggles:
  "(enlargedImage \<noteq> Some i \<longrightarrow> handleImageClick i enlargedImage = Some i) \<and>
   (enlargedImage = Some i \<longrightarrow> handleImageClick i enlargedImage = None) \<and>
   handleImageClick i (handleImageClick i None) = None \<and>
   (enlargedImage \<noteq> Some i \<longrightarrow>
      handleImageClick i (handleImageClick i enlargedImage) = None) \<and>
   (j \<noteq> i \<longrightarrow> handleImageClick i (Some j) = Some i)"
  by (simp add: handleImageClick_def)

theorem handleImageClick_toggles_witness:
  "handleImageClick 2 None = Some 2 \<and>
   handleImageClick 2 (Some 2) = None \<and>
   handleImageClick 2 (handleImageClick 2 None) = None \<and>
   handleImageClick 2 (handleImageClick 2 (Some 0)) = None \<and>
   handleImageClick 2 (Some 0) = Some 2"
  using handleImageClick_toggles [of None 2 0]
    handleImageClick_toggles [of "Some 2" 2 0]
    handleImageClick_toggles [of "Some 0" 2 0]
  by simp

section \<open>Properties of the orchestrator\<close>

subsection \<open>What a run of the handler computes\<close>

lemma exampleState_accepted:
  "trim (textInput exampleState) \<noteq> []" "\<not> isLoading exampleState" "truthy (Some ''key'')"
  by (simp_all add: exampleState_def trim_def trimStart_def trimEnd_def isWhiteSpace_def truthy_def)

lemma awaitImages_images:
  "fst (awaitImages len ps i acc st tr) = acc @ map settledImage ps"
  by (induction ps arbitrary: i acc st tr) (auto simp: settledImage_def Let_def split: sum.splits)

lemma awaitImages_trace:
  "snd (snd (awaitImages len ps i acc st tr)) = tr @ map ImageAwaited [i..<i + length ps]"
proof (induction ps arbitrary: i acc st tr)
  case Nil
  then show ?case by simp
next
  case (Cons p ps)
  have "[i..<i + length (p # ps)] = i # [Suc i..<Suc i + length ps]"
    by (simp add: upt_rec)
  with Cons show ?case
    by (cases p) (simp_all add: Let_def)
qed

lemma awaitImages_state:
  "\<exists>q. fst (snd (awaitImages len ps i acc st tr)) = st\<lparr>loadingProgress := q\<rparr>"
proof (induction ps arbitrary: i acc st tr)
  case Nil
  have "st = st\<lparr>loadingProgress := loadingProgress st\<rparr>" by simp
  then show ?case by (metis awaitImages.simps(1) fst_conv snd_conv)
next
  case (Cons p ps)
  show ?case
  proof (cases p)
    case (Inl e)
    with Cons show ?thesis by simp
  next
    case (Inr d)
    obtain q where "fst (snd (awaitImages len ps (i + 1) (acc @ [d])
        (st\<lparr>loadingProgress := 30 + 70 / of_nat len * of_nat (length (acc @ [d]))\<rparr>) (tr @ [ImageAwaited i])))
       = st\<lparr>loadingProgress := 30 + 70 / of_nat len * of_nat (length (acc @ [d]))\<rparr>\<lparr>loadingProgress := q\<rparr>"
      using Cons.IH by blast
    with Inr show ?thesis by (auto simp: Let_def)
  qed
qed

lemma enumerate_as_map: "enumerate 0 xs = map (\<lambda>i. (i, xs ! i)) [0..<length xs]"
proof (rule nth_equalityI)
  show "length (enumerate 0 xs) = length (map (\<lambda>i. (i, xs ! i)) [0..<length xs])"
    by simp
next
  fix i assume "i < length (enumerate 0 xs)"
  then show "enumerate 0 xs ! i = map (\<lambda>i. (i, xs ! i)) [0..<length xs] ! i"
    by (simp add: nth_enumerate_eq)
qed

lemma handleSubmit_success:
  assumes "trim (textInput st) \<noteq> []" "\<not> isLoading st" "truthy apiKey"
    and "descriptionCall (textInput st) = Inr ds" "ds \<noteq> []"
  shows "handleSubmit apiKey descriptionCall imageCall st =
     (publishResults ds (map (\<lambda>i. settledImage (imageCall i (ds ! i))) [0..<length ds])
        (st\<lparr>isLoading := True, error := None, images := [], descriptions := ds,
            showResults := False, loadingProgress := 100\<rparr>),
      [DescriptionRequested (textInput st), DescriptionAwaited]
        @ map (\<lambda>i. ImageRequested i (ds ! i)) [0..<length ds]
        @ map ImageAwaited [0..<length ds])"
proof -
  define st2 where "st2 = st\<lparr>isLoading := True, loadingProgress := 0, error := None, images := [],
                      descriptions := [], showResults := False\<rparr>\<lparr>descriptions := ds, loadingProgress := 30\<rparr>"
  define ps where "ps = map (\<lambda>(index, description). imageCall index description) (enumerate 0 ds)"
  define tr2 where "tr2 = [DescriptionRequested (textInput st), DescriptionAwaited]
       @ map (\<lambda>(index, description). ImageRequested index description) (enumerate 0 ds)"
  define r where "r = awaitImages (length ps) ps 0 [] st2 tr2"
  have ps: "ps = map (\<lambda>i. imageCall i (ds ! i)) [0..<length ds]"
    by (simp add: ps_def enumerate_as_map)
  have tr2: "tr2 = [DescriptionRequested (textInput st), DescriptionAwaited]
       @ map (\<lambda>i. ImageRequested i (ds ! i)) [0..<length ds]"
    by (simp add: tr2_def enumerate_as_map)
  have g: "fst r = map (\<lambda>i. settledImage (imageCall i (ds ! i))) [0..<length ds]"
    by (simp add: r_def awaitImages_images ps)
  have t: "snd (snd r) = tr2 @ map ImageAwaited [0..<length ds]"
    by (simp add: r_def awaitImages_trace ps)
  obtain q where s: "fst (snd r) = st2\<lparr>loadingProgress := q\<rparr>"
    unfolding r_def using awaitImages_state by blast
  have "handleSubmit apiKey descriptionCall imageCall st =
      (publishResults ds (fst r) ((fst (snd r))\<lparr>loadingProgress := 100\<rparr>), snd (snd r))"
    using assms
    by (simp add: handleSubmit_def Let_def r_def ps_def tr2_def st2_def split_beta)
  also have "(fst (snd r))\<lparr>loadingProgress := 100\<rparr> = st\<lparr>isLoading := True, error := None, images := [], descriptions := ds,
            showResults := False, loadingProgress := 100\<rparr>"
    by (simp add: s st2_def)
  finally show ?thesis by (simp add: g t tr2)
qed

lemma handleSubmit_failure:
  assumes "trim (textInput st) \<noteq> []" "\<not> isLoading st" "truthy apiKey"
    and "descriptionCall (textInput st) = Inl err \<or> descriptionCall (textInput st) = Inr []"
  shows "handleSubmit apiKey descriptionCall imageCall st =
     (st\<lparr>isLoading := False, loadingProgress := 0, images := [], descriptions := [],
          showResults := False, error := Some ''Failed to generate images. Please try again.''\<rparr>,
      [DescriptionRequested (textInput st), DescriptionAwaited])"
  using assms by (auto simp: handleSubmit_def Let_def failGeneration_def)

lemma handleSubmit_noop:
  assumes "trim (textInput st) = [] \<or> isLoading st"
  shows "handleSubmit apiKey descriptionCall imageCall st = (st, [])"
  using assms by (auto simp: handleSubmit_def)

lemma kept_images:
  "filter (\<lambda>x. x \<noteq> []) (map img [0..<K]) = map img (filter (\<lambda>i. img i \<noteq> []) [0..<K])"
  by (simp add: filter_map comp_def)

lemma kept_descriptions:
  "map snd (filter (\<lambda>(index, _). js_index (map img [0..<length ds]) index \<noteq> Some [])
                   (enumerate 0 ds))
   = map (\<lambda>i. ds ! i) (filter (\<lambda>i. img i \<noteq> []) [0..<length ds])"
proof -
  have "filter (\<lambda>i. js_index (map img [0..<length ds]) i \<noteq> Some []) [0..<length ds]
        = filter (\<lambda>i. img i \<noteq> []) [0..<length ds]"
    by (rule filter_cong) (auto simp: js_index_def)
  then show ?thesis
    by (simp add: enumerate_as_map filter_map comp_def)
qed

lemma kept_all:
  assumes "\<forall>i<K. img i \<noteq> []"
  shows "filter (\<lambda>i. img i \<noteq> []) [0..<K] = [0..<K]"
  using assms by (simp add: filter_id_conv)

lemma kept_all_but_one:
  assumes "j < K" "img j = []" "\<forall>i<K. i \<noteq> j \<longrightarrow> img i \<noteq> []"
  shows "filter (\<lambda>i. img i \<noteq> []) [0..<K] = [0..<j] @ [Suc j..<K]"
proof -
  have "[0..<K] = [0..<j] @ j # [Suc j..<K]"
    using assms(1) by (metis less_imp_le_nat upt_add_eq_append upt_conv_Cons le0 le_add_diff_inverse)
  moreover have "filter (\<lambda>i. img i \<noteq> []) [0..<j] = [0..<j]"
    using assms by (simp add: filter_id_conv)
  moreover have "filter (\<lambda>i. img i \<noteq> []) [Suc j..<K] = [Suc j..<K]"
    using assms by (simp add: filter_id_conv)
  ultimately show ?thesis using assms(2) by simp
qed

lemma nth_take_drop:
  "j < length ds \<Longrightarrow> map (\<lambda>i. ds ! i) ([0..<j] @ [Suc j..<length ds]) = take j ds @ drop (Suc j) ds"
proof -
  assume j: "j < length ds"
  have a: "map (\<lambda>i. ds ! i) [0..<j] = take j ds"
    using j by (intro nth_equalityI) auto
  have b: "map (\<lambda>i. ds ! i) [Suc j..<length ds] = drop (Suc j) ds"
    using j by (intro nth_equalityI) auto
  show ?thesis by (simp add: a b)
qed

subsection \<open>The published display set\<close>

text \<open>
  Claim C1. Take a submission that is accepted (non-blank topic, not loading, API key set)
  and whose description call returns the \<open>K\<close> descriptions \<open>ds\<close>, and let \<open>img i\<close> be what
  the image call for position \<open>i\<close> leaves: its payload, which may be empty, or the empty
  string when the call is rejected. Then the images published by the handler are the
  \<open>img i\<close> at exactly the positions \<open>i\<close> where \<open>img i\<close> is non-empty, in increasing order of
  position, and the descriptions published are \<open>ds\<close> at the same positions. Hence both
  lists have the same length and no published image is empty; if every image is non-empty
  all \<open>K\<close> items are published, the descriptions being \<open>ds\<close> itself; and if exactly the
  image at position \<open>j\<close> is empty, the \<open>K - 1\<close> others are published in their order. For
  \<open>K > 0\<close> the gallery is revealed, loading has ended and no error is set.
\<close>

theorem handleSubmit_display_set:
  fixes ds :: "string list" and imageCall :: "nat \<Rightarrow> string \<Rightarrow> js_error + string"
  defines "img \<equiv> \<lambda>i. settledImage (imageCall i (ds ! i))"
  defines "kept \<equiv> filter (\<lambda>i. img i \<noteq> []) [0..<length ds]"
  assumes accepted: "trim (textInput st) \<noteq> []" "\<not> isLoading st" "truthy apiKey"
    and ds: "descriptionCall (textInput st) = Inr ds"
  defines "st' \<equiv> fst (handleSubmit apiKey descriptionCall imageCall st)"
  shows "images st' = map img kept \<and>
         descriptions st' = map (\<lambda>i. ds ! i) kept \<and>
         length (images st') = length (descriptions st') \<and>
         (\<forall>x \<in> set (images st'). x \<noteq> []) \<and>
         (ds \<noteq> [] \<longrightarrow> showResults st' \<and> \<not> isLoading st' \<and> error st' = None) \<and>
         ((\<forall>i<length ds. img i \<noteq> []) \<longrightarrow>
            images st' = map img [0..<length ds] \<and> descriptions st' = ds \<and>
            length (images st') = length ds) \<and>
         (\<forall>j<length ds. img j = [] \<and> (\<forall>i<length ds. i \<noteq> j \<longrightarrow> img i \<noteq> []) \<longrightarrow>
            images st' = map img ([0..<j] @ [Suc j..<length ds]) \<and>
            descriptions st' = take j ds @ drop (Suc j) ds \<and>
            length (images st') = length ds - 1)"
proof -
  have pub: "images st' = map img kept \<and> descriptions st' = map (\<lambda>i. ds ! i) kept \<and>
      (ds \<noteq> [] \<longrightarrow> showResults st' \<and> \<not> isLoading st' \<and> error st' = None)"
  proof (cases "ds = []")
    case True
    then have "descriptionCall (textInput st) = Inl AxiosError \<or> descriptionCall (textInput st) = Inr []"
      using ds by simp
    from handleSubmit_failure [where st = st and descriptionCall = descriptionCall
        and imageCall = imageCall, OF accepted this] True
    show ?thesis
      by (simp add: st'_def kept_def)
  next
    case False
    note s = handleSubmit_success [where st = st and descriptionCall = descriptionCall
        and imageCall = imageCall, OF accepted ds False]
    have "images st' = map img kept"
      by (simp add: st'_def s publishResults_def kept_def img_def kept_images)
    moreover have "descriptions st' = map (\<lambda>i. ds ! i) kept"
      by (simp add: st'_def s publishResults_def kept_def img_def kept_descriptions)
    moreover have "showResults st' \<and> \<not> isLoading st' \<and> error st' = None"
      by (simp add: st'_def s publishResults_def)
    ultimately show ?thesis by simp
  qed
  then have im: "images st' = map img kept" and de: "descriptions st' = map (\<lambda>i. ds ! i) kept"
    and sh: "ds \<noteq> [] \<longrightarrow> showResults st' \<and> \<not> isLoading st' \<and> error st' = None"
    by simp_all
  have ne: "\<forall>x \<in> set (images st'). x \<noteq> []"
    by (auto simp: im kept_def)
  have all: "(\<forall>i<length ds. img i \<noteq> []) \<longrightarrow>
            images st' = map img [0..<length ds] \<and> descriptions st' = ds \<and>
            length (images st') = length ds"
    by (auto simp: im de kept_def kept_all map_nth)
  have one: "\<forall>j<length ds. img j = [] \<and> (\<forall>i<length ds. i \<noteq> j \<longrightarrow> img i \<noteq> []) \<longrightarrow>
            images st' = map img ([0..<j] @ [Suc j..<length ds]) \<and>
            descriptions st' = take j ds @ drop (Suc j) ds \<and>
            length (images st') = length ds - 1"
  proof (intro allI impI)
    fix j assume j: "j < length ds" and h: "img j = [] \<and> (\<forall>i<length ds. i \<noteq> j \<longrightarrow> img i \<noteq> [])"
    then have k: "kept = [0..<j] @ [Suc j..<length ds]"
      unfolding kept_def by (intro kept_all_but_one) auto
    show "images st' = map img ([0..<j] @ [Suc j..<length ds]) \<and>
            descriptions st' = take j ds @ drop (Suc j) ds \<and>
            length (images st') = length ds - 1"
      using j by (simp add: im de k nth_take_drop del: map_append)
  qed
  have len: "length (images st') = length (descriptions st')"
    by (simp add: im de)
  show ?thesis
    by (intro conjI) (rule im de len ne sh all one)+
qed

theorem handleSubmit_display_set_witness:
  "images (fst (handleSubmit (Some ''key'') (\<lambda>topic. Inr [''d0'', ''d1'', ''d2''])
      (\<lambda>i d. if i = 1 then Inr [] else Inr (''img-'' @ d)) exampleState)) = [''img-d0'', ''img-d2''] \<and>
   descriptions (fst (handleSubmit (Some ''key'') (\<lambda>topic. Inr [''d0'', ''d1'', ''d2''])
      (\<lambda>i d. if i = 1 then Inr [] else Inr (''img-'' @ d)) exampleState)) = [''d0'', ''d2''] \<and>
   length (images (fst (handleSubmit (Some ''key'') (\<lambda>topic. Inr [''d0'', ''d1'', ''d2''])
      (\<lambda>i d. if i = 1 then Inr [] else Inr (''img-'' @ d)) exampleState))) = 3 - 1 \<and>
   images (fst (handleSubmit (Some ''key'') (\<lambda>topic. Inr [''d0'', ''d1''])
      (\<lambda>i d. Inr (''img-'' @ d)) exampleState)) = [''img-d0'', ''img-d1''] \<and>
   descriptions (fst (handleSubmit (Some ''key'') (\<lambda>topic. Inr [''d0'', ''d1''])
      (\<lambda>i d. Inr (''img-'' @ d)) exampleState)) = [''d0'', ''d1'']"
proof -
  let ?ds = "[''d0'', ''d1'', ''d2'']"
  let ?call = "\<lambda>(i :: nat) d. if i = 1 then Inr [] else (Inr (''img-'' @ d) :: js_error + string)"
  let ?ok = "\<lambda>(i :: nat) d. (Inr (''img-'' @ d) :: js_error + string)"
  have d: "(\<lambda>topic. Inr ?ds) (textInput exampleState) = (Inr ?ds :: js_error + string list)"
    by simp
  have d2: "(\<lambda>topic. Inr [''d0'', ''d1'']) (textInput exampleState)
      = (Inr [''d0'', ''d1''] :: js_error + string list)"
    by simp
  note t = handleSubmit_display_set [where st = exampleState
      and descriptionCall = "\<lambda>topic. Inr ?ds" and ds = ?ds and imageCall = ?call,
      OF exampleState_accepted d]
  note u = handleSubmit_display_set [where st = exampleState
      and descriptionCall = "\<lambda>topic. Inr [''d0'', ''d1'']" and ds = "[''d0'', ''d1'']"
      and imageCall = ?ok, OF exampleState_accepted d2]
  have j: "1 < length ?ds" by simp
  have one: "settledImage (?call 1 (?ds ! 1)) = [] \<and>
      (\<forall>i<length ?ds. i \<noteq> 1 \<longrightarrow> settledImage (?call i (?ds ! i)) \<noteq> [])"
    by (simp add: settledImage_def)
  have all: "\<forall>i<length [''d0'', ''d1'']. settledImage (?ok i ([''d0'', ''d1''] ! i)) \<noteq> []"
    by (simp add: settledImage_def)
  note t1 = t [THEN conjunct2, THEN conjunct2, THEN conjunct2, THEN conjunct2, THEN conjunct2,
      THEN conjunct2, rule_format, OF j one]
  note u1 = u [THEN conjunct2, THEN conjunct2, THEN conjunct2, THEN conjunct2, THEN conjunct2,
      THEN conjunct1, THEN mp, OF all]
  from t [THEN conjunct1] t [THEN conjunct2, THEN conjunct1] t1 u1
  show ?thesis
    by (simp add: settledImage_def)
qed


section \<open>Properties of the service client\<close>

subsection \<open>Lines of a text\<close>

lemma splitLines_nonempty: "splitLines s \<noteq> []"
  by (induction s) (auto split: list.splits)

lemma splitLines_no_linefeed: "l \<in> set (splitLines s) \<Longrightarrow> CHR 0x0A \<notin> set l"
proof (induction s arbitrary: l)
  case Nil
  then show ?case by simp
next
  case (Cons c cs)
  obtain h t where ht: "splitLines cs = h # t"
    using splitLines_nonempty by (cases "splitLines cs") auto
  with Cons show ?case
    by (auto split: if_splits)
qed

lemma joinLines_splitLines: "joinLines (splitLines s) = s"
proof (induction s)
  case Nil
  then show ?case by simp
next
  case (Cons c cs)
  obtain h t where ht: "splitLines cs = h # t"
    using splitLines_nonempty by (cases "splitLines cs") auto
  with Cons show ?case
    by (cases t) auto
qed

subsection \<open>The description request\<close>

lemma generateMemeDescriptions_resolves:
  "\<exists>ds. generateMemeDescriptions apiKey post prompt = Inr ds"
  by (simp add: generateMemeDescriptions_def split: sum.splits)

lemma generateMemeDescriptions_rejected_post:
  assumes "post (textModelUrl (the apiKey)) (descriptionRequestText prompt) = Inl err"
  shows "generateMemeDescriptions apiKey post prompt = Inr []"
  using assms
  by (simp add: generateMemeDescriptions_def generateMemeDescriptions_try_def
      descriptionRequestText_def split: sum.splits)

lemma generateMemeDescriptions_missing_key:
  assumes "\<not> truthy apiKey"
  shows "generateMemeDescriptions apiKey post prompt = Inr []"
  using assms
  by (simp add: generateMemeDescriptions_def generateMemeDescriptions_try_def)

lemma generateMemeDescriptions_response:
  assumes "truthy apiKey"
    and "post (textModelUrl (the apiKey)) (descriptionRequestText prompt) = Inr response"
  shows "generateMemeDescriptions apiKey post prompt =
     (case candidates response of
        [] \<Rightarrow> Inr []
      | c # _ \<Rightarrow>
          (case find (\<lambda>part. truthy (partText part)) (contentParts c) of
             None \<Rightarrow> Inr []
           | Some textPart \<Rightarrow>
               Inr (take 4 (filter (\<lambda>line. trim line \<noteq> [])
                      (splitLines (the (partText textPart)))))))"
proof -
  have "truthy (partText p)"
    if "find (\<lambda>part. truthy (partText part)) ps = Some p" for ps p
    using that by (auto simp: find_Some_iff)
  then show ?thesis
    using assms
    by (auto simp: generateMemeDescriptions_def generateMemeDescriptions_try_def
        descriptionRequestText_def split: sum.splits list.splits option.splits)
qed

text \<open>
  Claim C9. The description client never rejects: its promise always resolves with a list
  (the empty one when the API key is not set, in which case no request is made).
  When the request is answered and the first candidate has a part with (non-empty) text, the
  result consists of the lines of the first such part (the pieces of the text between line
  feeds: joined by line feeds they give the text back, and none contains a line feed) that
  are not blank, in their order, cut to the first four. When no part of
  the first candidate has text, when the response has no candidate, and when the request
  fails, the result is the empty list.
\<close>

theorem generateMemeDescriptions_lines:
  fixes post :: "string \<Rightarrow> string \<Rightarrow> js_error + GeminiResponse"
    and apiKey :: "string option" and prompt :: string
  defines "result \<equiv> generateMemeDescriptions apiKey post prompt"
    and "outcome \<equiv> post (textModelUrl (the apiKey)) (descriptionRequestText prompt)"
  shows "(\<exists>ds. result = Inr ds) \<and>
         (\<not> truthy apiKey \<longrightarrow> result = Inr []) \<and>
         (truthy apiKey \<and> outcome = Inl err \<longrightarrow> result = Inr []) \<and>
         (truthy apiKey \<and> outcome = Inr response \<and> candidates response = [] \<longrightarrow>
            result = Inr []) \<and>
         (truthy apiKey \<and> outcome = Inr response \<and> candidates response = c # cs \<and>
          (\<forall>part \<in> set (contentParts c). \<not> truthy (partText part)) \<longrightarrow>
            result = Inr []) \<and>
         (truthy apiKey \<and> outcome = Inr response \<and> candidates response = c # cs \<and>
          find (\<lambda>part. truthy (partText part)) (contentParts c) = Some textPart \<and>
          partText textPart = Some t \<longrightarrow>
            result = Inr (take 4 (filter (\<lambda>line. trim line \<noteq> []) (splitLines t))) \<and>
            joinLines (splitLines t) = t \<and>
            (\<forall>l \<in> set (splitLines t). CHR 0x0A \<notin> set l))"
proof -
  have a: "\<exists>ds. result = Inr ds"
    unfolding result_def by (rule generateMemeDescriptions_resolves)
  have k: "\<not> truthy apiKey \<longrightarrow> result = Inr []"
    unfolding result_def by (simp add: generateMemeDescriptions_missing_key)
  have b: "truthy apiKey \<and> outcome = Inl err \<longrightarrow> result = Inr []"
    unfolding result_def outcome_def by (simp add: generateMemeDescriptions_rejected_post)
  have c: "truthy apiKey \<and> outcome = Inr response \<and> candidates response = [] \<longrightarrow>
            result = Inr []"
    unfolding result_def outcome_def by (simp add: generateMemeDescriptions_response)
  have d: "truthy apiKey \<and> outcome = Inr response \<and> candidates response = c # cs \<and>
          (\<forall>part \<in> set (contentParts c). \<not> truthy (partText part)) \<longrightarrow>
            result = Inr []"
  proof (intro impI, elim conjE)
    assume h: "truthy apiKey" "outcome = Inr response" "candidates response = c # cs"
      and n: "\<forall>part \<in> set (contentParts c). \<not> truthy (partText part)"
    from n have "find (\<lambda>part. truthy (partText part)) (contentParts c) = None"
      by (simp add: find_None_iff)
    with h show "result = Inr []"
      unfolding result_def outcome_def by (simp add: generateMemeDescriptions_response)
  qed
  have e: "truthy apiKey \<and> outcome = Inr response \<and> candidates response = c # cs \<and>
          find (\<lambda>part. truthy (partText part)) (contentParts c) = Some textPart \<and>
          partText textPart = Some t \<longrightarrow>
            result = Inr (take 4 (filter (\<lambda>line. trim line \<noteq> []) (splitLines t))) \<and>
            joinLines (splitLines t) = t \<and>
            (\<forall>l \<in> set (splitLines t). CHR 0x0A \<notin> set l)"
    unfolding result_def outcome_def
    by (simp add: generateMemeDescriptions_response joinLines_splitLines splitLines_no_linefeed)
  show ?thesis
    by (intro conjI) (rule a k b c d e)+
qed

theorem generateMemeDescriptions_lines_witness:
  "generateMemeDescriptions (Some ''key'')
     (\<lambda>url body. Inr \<lparr>candidates = [\<lparr>contentParts =
        [\<lparr>partText = Some [], inlineData = None\<rparr>,
         \<lparr>partText = Some (''one'' @ [CHR 0x0A] @ ''two'' @ [CHR 0x0A, CHR 0x0A] @ ''  ''
                            @ [CHR 0x0A] @ ''three'' @ [CHR 0x0A] @ ''four'' @ [CHR 0x0A] @ ''five''),
          inlineData = None\<rparr>]\<rparr>]\<rparr>)
     ''contract law''
   = Inr [''one'', ''two'', ''three'', ''four''] \<and>
   generateMemeDescriptions (Some ''key'') (\<lambda>url body. Inl AxiosError) ''contract law'' = Inr []"
proof -
  let ?t = "''one'' @ [CHR 0x0A] @ ''two'' @ [CHR 0x0A, CHR 0x0A] @ ''  ''
              @ [CHR 0x0A] @ ''three'' @ [CHR 0x0A] @ ''four'' @ [CHR 0x0A] @ ''five''"
  let ?p = "\<lparr>partText = Some ?t, inlineData = None\<rparr>"
  let ?c = "\<lparr>contentParts = [\<lparr>partText = Some [], inlineData = None\<rparr>, ?p]\<rparr>"
  let ?r = "\<lparr>candidates = [?c]\<rparr>"
  have h: "truthy (Some ''key'') \<and>
      (\<lambda>url body. Inr ?r) (textModelUrl (the (Some ''key''))) (descriptionRequestText ''contract law'')
        = (Inr ?r :: js_error + GeminiResponse) \<and>
      candidates ?r = ?c # [] \<and>
      find (\<lambda>part. truthy (partText part)) (contentParts ?c) = Some ?p \<and>
      partText ?p = Some ?t"
    by (simp add: truthy_def)
  have f: "truthy (Some ''key'') \<and>
      (\<lambda>url body. Inl AxiosError) (textModelUrl (the (Some ''key'')))
        (descriptionRequestText ''contract law'') = (Inl AxiosError :: js_error + GeminiResponse)"
    by (simp add: truthy_def)
  note t = generateMemeDescriptions_lines [where apiKey = "Some ''key''"
      and prompt = "''contract law''"]
  from t [where post = "\<lambda>url body. Inr ?r" and response = ?r and c = ?c and cs = "[]"
      and textPart = ?p and t = ?t,
      THEN conjunct2, THEN conjunct2, THEN conjunct2, THEN conjunct2, THEN conjunct2,
      THEN mp, OF h, THEN conjunct1]
    t [where post = "\<lambda>url body. Inl AxiosError" and err = AxiosError,
      THEN conjunct2, THEN conjunct2, THEN conjunct1, THEN mp, OF f]
  show ?thesis
    by (simp add: trim_def trimStart_def trimEnd_def isWhiteSpace_def)
qed

section \<open>Order of the requests, failure of the description call, ignored submissions\<close>

subsection \<open>Order of the requests\<close>

lemma list_all_upt: "list_all P [0..<n] \<longleftrightarrow> (\<forall>k<n. P k)"
  by (auto simp: list_all_iff)


lemma descriptionAwaitedFirst_prefix:
  "descriptionAwaitedFirst (DescriptionRequested t # DescriptionAwaited # tr)"
proof -
  have "case (DescriptionRequested t # DescriptionAwaited # tr) ! k of
          ImageRequested i d \<Rightarrow>
            DescriptionAwaited \<in> set (take k (DescriptionRequested t # DescriptionAwaited # tr))
        | _ \<Rightarrow> True" for k
  proof (cases k)
    case 0
    then show ?thesis by simp
  next
    case (Suc m)
    then show ?thesis by (cases m) (auto split: event.splits)
  qed
  then show ?thesis
    by (simp only: descriptionAwaitedFirst_def list_all_upt) blast
qed

lemma one_at_a_time_single:
  "imagesIssuedOneAtATime
     [DescriptionRequested t, DescriptionAwaited, ImageRequested 0 d, ImageAwaited 0]"
  by (simp add: imagesIssuedOneAtATime_def upt_rec)

lemma not_one_at_a_time:
  "\<not> imagesIssuedOneAtATime
        (DescriptionRequested t # DescriptionAwaited # ImageRequested 0 d0
           # ImageRequested (Suc 0) d1 # tr)"
    (is "\<not> imagesIssuedOneAtATime ?L")
proof
  assume a: "imagesIssuedOneAtATime ?L"
  have "3 < length ?L" by simp
  with a have "case ?L ! 3 of
                 ImageRequested i d \<Rightarrow> i = 0 \<or> ImageAwaited (i - 1) \<in> set (take 3 ?L)
               | _ \<Rightarrow> True"
    unfolding imagesIssuedOneAtATime_def list_all_upt by blast
  then show False
    by (simp add: numeral_3_eq_3)
qed

text \<open>
  Claim C2, as the code has it. In every accepted submission whose description call returns
  at least one description, the handler's trace is: the description request, the resumption
  from its \<^verbatim>\<open>await\<close>, then the image requests for all descriptions, in description
  order and with nothing between them (\<^verbatim>\<open>memeDescriptions.map\<close> makes every call before
  the loop starts), and only then the resumptions from the \<^verbatim>\<open>await\<close>s of the image
  promises, one after the other in description order. So the description call is complete
  before any image call is issued; but the image calls are in flight together, and a request
  is issued after the previous one has been awaited only in the case of a single
  description.
\<close>

theorem handleSubmit_requests_then_awaits:
  fixes imageCall :: "nat \<Rightarrow> string \<Rightarrow> js_error + string"
  assumes "trim (textInput st) \<noteq> []" "\<not> isLoading st" "truthy apiKey"
    and "descriptionCall (textInput st) = Inr ds" "ds \<noteq> []"
  defines "tr \<equiv> snd (handleSubmit apiKey descriptionCall imageCall st)"
  shows "tr = [DescriptionRequested (textInput st), DescriptionAwaited]
              @ map (\<lambda>i. ImageRequested i (ds ! i)) [0..<length ds]
              @ map ImageAwaited [0..<length ds] \<and>
         descriptionAwaitedFirst tr \<and>
         (imagesIssuedOneAtATime tr \<longleftrightarrow> length ds = 1)"
proof -
  have tr: "tr = [DescriptionRequested (textInput st), DescriptionAwaited]
              @ map (\<lambda>i. ImageRequested i (ds ! i)) [0..<length ds]
              @ map ImageAwaited [0..<length ds]"
    unfolding tr_def
    using handleSubmit_success [where st = st and descriptionCall = descriptionCall
      and imageCall = imageCall, OF assms(1-5)] by simp
  have first: "descriptionAwaitedFirst tr"
    by (simp add: tr descriptionAwaitedFirst_prefix)
  have one: "imagesIssuedOneAtATime tr \<longleftrightarrow> length ds = 1"
  proof (cases "length ds = 1")
    case True
    then have "tr = [DescriptionRequested (textInput st), DescriptionAwaited,
        ImageRequested 0 (ds ! 0), ImageAwaited 0]"
      by (simp add: tr)
    with True show ?thesis
      by (simp add: one_at_a_time_single)
  next
    case False
    moreover have "length ds \<noteq> 0"
      using \<open>ds \<noteq> []\<close> by simp
    ultimately have "2 \<le> length ds"
      by arith
    then have "0 < length ds" "Suc 0 < length ds"
      by arith+
    then have "[0..<length ds] = 0 # 1 # [2..<length ds]"
      using upt_conv_Cons [of 0 "length ds"] upt_conv_Cons [of "Suc 0" "length ds"]
      by (simp add: numeral_2_eq_2)
    then have "tr = DescriptionRequested (textInput st) # DescriptionAwaited
        # ImageRequested 0 (ds ! 0) # ImageRequested 1 (ds ! 1)
        # (map (\<lambda>i. ImageRequested i (ds ! i)) [2..<length ds] @ map ImageAwaited [0..<length ds])"
      unfolding tr by simp
    with False show ?thesis
      by (simp add: not_one_at_a_time)
  qed
  show ?thesis
    by (intro conjI) (rule tr first one)+
qed

theorem handleSubmit_requests_then_awaits_witness:
  "snd (handleSubmit (Some ''key'') (\<lambda>topic. Inr [''d0'', ''d1''])
          (\<lambda>i d. Inr (''img-'' @ d)) exampleState) =
     [DescriptionRequested ''contract law'', DescriptionAwaited,
      ImageRequested 0 ''d0'', ImageRequested 1 ''d1'', ImageAwaited 0, ImageAwaited 1]"
proof -
  have d: "(\<lambda>topic. Inr [''d0'', ''d1'']) (textInput exampleState) = (Inr [''d0'', ''d1''] :: js_error + string list)"
    "[''d0'', ''d1''] \<noteq> []"
    by simp_all
  from handleSubmit_requests_then_awaits [where st = exampleState
      and descriptionCall = "\<lambda>topic. Inr [''d0'', ''d1'']" and imageCall = "\<lambda>i d. Inr (''img-'' @ d)",
      OF exampleState_accepted d, THEN conjunct1]
  show ?thesis
    by (simp add: exampleState_def)
qed

text \<open>
  Claim C2, as stated, fails: with two descriptions the request for the second image is
  issued before the promise of the first has been awaited.
\<close>

theorem handleSubmit_issues_images_together:
  "snd (handleSubmit (Some ''key'') twoDescriptions everyImage exampleState) =
     [DescriptionRequested ''contract law'', DescriptionAwaited,
      ImageRequested 0 ''d0'', ImageRequested 1 ''d1'', ImageAwaited 0, ImageAwaited 1] \<and>
   \<not> imagesIssuedOneAtATime
        (snd (handleSubmit (Some ''key'') twoDescriptions everyImage exampleState))"
  by code_simp

subsection \<open>Failure of the description call\<close>

text \<open>
  Claim C3. In every accepted submission whose description call is rejected, or returns no
  description, or is the client \<^const>\<open>generateMemeDescriptions\<close> with a failing
  transport (which then returns no description), the handler leaves the state it entered
  with (topic and focus untouched; images and descriptions cleared, results hidden) with
  loading ended and the one error message set, and its trace consists of the description
  request and its \<^verbatim>\<open>await\<close>: no image call is issued.
\<close>

theorem handleSubmit_description_failure:
  assumes "trim (textInput st) \<noteq> []" "\<not> isLoading st" "truthy apiKey"
    and "descriptionCall (textInput st) = Inl err \<or>
         descriptionCall (textInput st) = Inr [] \<or>
         (descriptionCall = generateMemeDescriptions apiKey post \<and>
          post (textModelUrl (the apiKey)) (descriptionRequestText (textInput st)) = Inl err')"
  shows "handleSubmit apiKey descriptionCall imageCall st =
           (st\<lparr>isLoading := False, loadingProgress := 0, images := [], descriptions := [],
                showResults := False,
                error := Some ''Failed to generate images. Please try again.''\<rparr>,
            [DescriptionRequested (textInput st), DescriptionAwaited]) \<and>
         (\<forall>i d. ImageRequested i d \<notin> set (snd (handleSubmit apiKey descriptionCall imageCall st)))"
proof -
  from assms(4) have "descriptionCall (textInput st) = Inl err \<or>
         descriptionCall (textInput st) = Inr []"
    by (auto simp: generateMemeDescriptions_rejected_post)
  from handleSubmit_failure [where st = st and descriptionCall = descriptionCall
      and imageCall = imageCall, OF assms(1-3) this]
  show ?thesis by simp
qed

theorem handleSubmit_description_failure_witness:
  "handleSubmit (Some ''key'') (\<lambda>topic. Inl AxiosError) (\<lambda>i d. Inr ''img'') exampleState =
     (exampleState\<lparr>error := Some ''Failed to generate images. Please try again.''\<rparr>,
      [DescriptionRequested ''contract law'', DescriptionAwaited]) \<and>
   handleSubmit (Some ''key'') (\<lambda>topic. Inr []) (\<lambda>i d. Inr ''img'') exampleState =
     (exampleState\<lparr>error := Some ''Failed to generate images. Please try again.''\<rparr>,
      [DescriptionRequested ''contract law'', DescriptionAwaited]) \<and>
   handleSubmit (Some ''key'')
       (generateMemeDescriptions (Some ''key'') (\<lambda>url body. Inl AxiosError))
       (\<lambda>i d. Inr ''img'') exampleState =
     (exampleState\<lparr>error := Some ''Failed to generate images. Please try again.''\<rparr>,
      [DescriptionRequested ''contract law'', DescriptionAwaited])"
proof -
  let ?post = "\<lambda>(url :: string) (body :: string). (Inl AxiosError :: js_error + GeminiResponse)"
  have a: "(\<lambda>topic. Inl AxiosError) (textInput exampleState) = Inl AxiosError \<or>
           (\<lambda>topic. Inl AxiosError) (textInput exampleState) = (Inr [] :: js_error + string list) \<or>
           ((\<lambda>topic. Inl AxiosError) = generateMemeDescriptions (Some ''key'') ?post \<and>
            ?post (textModelUrl (the (Some ''key''))) (descriptionRequestText (textInput exampleState))
              = Inl AxiosError)"
    by simp
  have b: "(\<lambda>topic. Inr []) (textInput exampleState) = Inl AxiosError \<or>
           (\<lambda>topic. Inr []) (textInput exampleState) = (Inr [] :: js_error + string list) \<or>
           ((\<lambda>topic. Inr []) = generateMemeDescriptions (Some ''key'') ?post \<and>
            ?post (textModelUrl (the (Some ''key''))) (descriptionRequestText (textInput exampleState))
              = Inl AxiosError)"
    by simp
  have c: "generateMemeDescriptions (Some ''key'') ?post (textInput exampleState) = Inl AxiosError \<or>
           generateMemeDescriptions (Some ''key'') ?post (textInput exampleState) = Inr [] \<or>
           (generateMemeDescriptions (Some ''key'') ?post = generateMemeDescriptions (Some ''key'') ?post \<and>
            ?post (textModelUrl (the (Some ''key''))) (descriptionRequestText (textInput exampleState))
              = Inl AxiosError)"
    by simp
  note ta = handleSubmit_description_failure [where st = exampleState
      and descriptionCall = "\<lambda>topic. Inl AxiosError" and imageCall = "\<lambda>i d. Inr ''img''"
      and post = ?post and err = AxiosError and err' = AxiosError,
      OF exampleState_accepted a, THEN conjunct1]
  note tb = handleSubmit_description_failure [where st = exampleState
      and descriptionCall = "\<lambda>topic. Inr []" and imageCall = "\<lambda>i d. Inr ''img''"
      and post = ?post and err = AxiosError and err' = AxiosError,
      OF exampleState_accepted b, THEN conjunct1]
  note tc = handleSubmit_description_failure [where st = exampleState
      and descriptionCall = "generateMemeDescriptions (Some ''key'') ?post"
      and imageCall = "\<lambda>i d. Inr ''img''"
      and post = ?post and err = AxiosError and err' = AxiosError,
      OF exampleState_accepted c, THEN conjunct1]
  show ?thesis
    using ta tb tc by (simp add: exampleState_def)
qed

subsection \<open>Ignored submissions\<close>

text \<open>
  Claim C4. When the topic is empty after trimming, or a generation is in progress, the
  handler returns at once: the state (images, descriptions, error, progress, loading flag,
  visibility of the results, and the rest) is unchanged and the trace is empty, so neither
  a description request nor an image request is made.
\<close>

theorem handleSubmit_ignored:
  assumes "trim (textInput st) = [] \<or> isLoading st"
  shows "handleSubmit apiKey descriptionCall imageCall st = (st, [])"
  using assms by (rule handleSubmit_noop)

theorem handleSubmit_ignored_witness:
  "handleSubmit (Some ''key'') (\<lambda>topic. Inr [''d0'']) (\<lambda>i d. Inr ''img'')
     (exampleState\<lparr>textInput := [CHR '' '', CHR 0x09, CHR 0x0A]\<rparr>)
     = (exampleState\<lparr>textInput := [CHR '' '', CHR 0x09, CHR 0x0A]\<rparr>, []) \<and>
   handleSubmit (Some ''key'') (\<lambda>topic. Inr [''d0'']) (\<lambda>i d. Inr ''img'')
     (exampleState\<lparr>isLoading := True\<rparr>)
     = (exampleState\<lparr>isLoading := True\<rparr>, [])"
proof -
  have a: "trim (textInput (exampleState\<lparr>textInput := [CHR '' '', CHR 0x09, CHR 0x0A]\<rparr>)) = []
       \<or> isLoading (exampleState\<lparr>textInput := [CHR '' '', CHR 0x09, CHR 0x0A]\<rparr>)"
    by (simp add: trim_def trimStart_def trimEnd_def isWhiteSpace_def)
  have b: "trim (textInput (exampleState\<lparr>isLoading := True\<rparr>)) = []
       \<or> isLoading (exampleState\<lparr>isLoading := True\<rparr>)"
    by simp
  show ?thesis
    using handleSubmit_ignored [OF a] handleSubmit_ignored [OF b] by simp
qed

section \<open>Properties of the gallery: file names and captions\<close>

subsection \<open>Trimming\<close>

lemma trimEnd_prefix: "\<exists>w. t = trimEnd t @ w"
proof -
  have "rev (takeWhile isWhiteSpace (rev t) @ dropWhile isWhiteSpace (rev t)) = t"
    by (simp only: takeWhile_dropWhile_id rev_rev_ident)
  then have "t = trimEnd t @ rev (takeWhile isWhiteSpace (rev t))"
    by (simp only: rev_append trimEnd_def)
  then show ?thesis ..
qed

lemma trimEnd_idem: "trimEnd (trimEnd t) = trimEnd t"
  by (simp add: trimEnd_def)

lemma trimStart_idem: "trimStart (trimStart t) = trimStart t"
  by (simp add: trimStart_def)

lemma trimStart_trimEnd_trimStart: "trimStart (trimEnd (trimStart s)) = trimEnd (trimStart s)"
proof (cases "trimEnd (trimStart s) = []")
  case True
  then show ?thesis by (simp add: trimStart_def)
next
  case False
  obtain w where w: "trimStart s = trimEnd (trimStart s) @ w"
    using trimEnd_prefix by blast
  with False have "hd (trimEnd (trimStart s)) = hd (trimStart s)"
    by (metis hd_append2)
  moreover have "trimStart s \<noteq> []"
    using w False by auto
  then have "\<not> isWhiteSpace (hd (trimStart s))"
    unfolding trimStart_def by (rule hd_dropWhile)
  ultimately have "\<not> isWhiteSpace (hd (trimEnd (trimStart s)))"
    by simp
  then show ?thesis
    unfolding trimStart_def [of "trimEnd (trimStart s)"] by (simp add: dropWhile_eq_self_iff)
qed

lemma trim_idem: "trim (trim s) = trim s"
  by (simp add: trim_def trimStart_trimEnd_trimStart trimEnd_idem)

lemma trim_trimStart: "trim (trimStart s) = trim s"
  by (simp add: trim_def trimStart_idem)

lemma length_trim: "length (trim s) \<le> length s"
proof -
  have "length (trimEnd t) \<le> length t" for t
    by (simp add: trimEnd_def) (metis length_dropWhile_le length_rev)
  moreover have "length (trimStart s) \<le> length s"
    by (simp add: trimStart_def length_dropWhile_le)
  ultimately show ?thesis
    unfolding trim_def using le_trans by blast
qed

subsection \<open>The download file name\<close>

lemma numberToString_nonempty: "numberToString n \<noteq> []"
  by (subst numberToString.simps) simp

lemma cleanDescription_length: "length (cleanDescription d) \<le> 30"
  by (simp add: cleanDescription_def)

lemma hyphenateWhiteSpace_no_white_space:
  "c \<in> set (hyphenateWhiteSpace s) \<Longrightarrow> \<not> isWhiteSpace c"
proof (induction s rule: hyphenateWhiteSpace.induct)
  case 1
  then show ?case by simp
next
  case (2 a cs)
  then show ?case
    by (auto simp: isWhiteSpace_def split: if_splits)
qed

lemma hyphenateWhiteSpace_chars:
  "c \<in> set (hyphenateWhiteSpace s) \<Longrightarrow> c = CHR ''-'' \<or> c \<in> set s"
proof (induction s rule: hyphenateWhiteSpace.induct)
  case 1
  then show ?case by simp
next
  case (2 a cs)
  then show ?case
    by (auto split: if_splits dest: set_dropWhileD)
qed

lemma set_trim: "set (trim s) \<subseteq> set s"
proof -
  have "set (dropWhile isWhiteSpace (rev (dropWhile isWhiteSpace s))) \<subseteq> set (rev (dropWhile isWhiteSpace s))"
    by (meson set_dropWhileD subsetI)
  also have "\<dots> \<subseteq> set s"
    by (auto dest: set_dropWhileD)
  finally show ?thesis by (simp add: trim_def trimStart_def trimEnd_def)
qed

lemma cleanDescription_chars:
  assumes "c \<in> set (cleanDescription d)"
  shows "isFilenameChar c \<and> \<not> isWhiteSpace c"
proof -
  from assms have c: "c \<in> set (hyphenateWhiteSpace (trim (removeSpecialChars (toLowerCase d))))"
    by (auto simp: cleanDescription_def dest: in_set_takeD)
  then have "\<not> isWhiteSpace c" by (rule hyphenateWhiteSpace_no_white_space)
  moreover from c have "c = CHR ''-'' \<or> c \<in> set (trim (removeSpecialChars (toLowerCase d)))"
    by (rule hyphenateWhiteSpace_chars)
  then have "isFilenameChar c"
    using set_trim [of "removeSpecialChars (toLowerCase d)"]
    by (auto simp: removeSpecialChars_def isFilenameChar_def)
  ultimately show ?thesis by simp
qed

lemma cleanDescription_nothing_left:
  assumes "\<forall>c \<in> set (toLowerCase d). \<not> isFilenameChar c"
  shows "cleanDescription d = []"
proof -
  have "removeSpecialChars (toLowerCase d) = []"
    using assms by (simp add: removeSpecialChars_def filter_empty_conv)
  then show ?thesis
    by (simp add: cleanDescription_def trim_def trimStart_def trimEnd_def)
qed

lemma concat_runs: "concat (runs s) = s"
  by (induction s rule: runs.induct) simp_all

lemma hyphenateWhiteSpace_prefix:
  "\<forall>x \<in> set w. \<not> isWhiteSpace x \<Longrightarrow> hyphenateWhiteSpace (w @ r) = w @ hyphenateWhiteSpace r"
  by (induction w) simp_all

lemma hyphenateWhiteSpace_runs: "hyphenateWhiteSpace s = collapseWhiteSpaceRuns s"
proof (induction s rule: runs.induct)
  case 1
  then show ?case by (simp add: collapseWhiteSpaceRuns_def)
next
  case (2 c cs)
  show ?case
  proof (cases "isWhiteSpace c")
    case True
    then have "(\<lambda>x. isWhiteSpace x = isWhiteSpace c) = isWhiteSpace"
      by auto
    with 2 True show ?thesis
      by (simp add: collapseWhiteSpaceRuns_def)
  next
    case False
    let ?w = "takeWhile (\<lambda>x. isWhiteSpace x = isWhiteSpace c) cs"
    let ?r = "dropWhile (\<lambda>x. isWhiteSpace x = isWhiteSpace c) cs"
    have w: "\<forall>x \<in> set (c # ?w). \<not> isWhiteSpace x"
      using False by (auto dest: set_takeWhileD)
    have "hyphenateWhiteSpace (c # cs) = hyphenateWhiteSpace ((c # ?w) @ ?r)"
      by simp
    also have "\<dots> = (c # ?w) @ hyphenateWhiteSpace ?r"
      using w by (rule hyphenateWhiteSpace_prefix)
    also have "\<dots> = collapseWhiteSpaceRuns (c # cs)"
      using 2 False by (simp add: collapseWhiteSpaceRuns_def)
    finally show ?thesis .
  qed
qed

lemma example_judge:
  "cleanDescription ''A judge hammering a gavel with 'Motion Denied' text''
     = ''a-judge-hammering-a-gavel-with''"
  by code_simp

lemma example_marks: "cleanDescription ''!!!'' = []"
  by code_simp

text \<open>
  The second description of the component's tests: the 30 characters end in the first letter
  of the next word. (The test of the enlarged view expects the name without that
  \<^verbatim>\<open>-w\<close>, which the code does not produce.)
\<close>

lemma example_lawyer:
  "computeDownloadFilename 1
     (Some ''Lawyer drowning in paperwork with 'Discovery Phase' caption'')
   = ''law-meme-lawyer-drowning-in-paperwork-w.png''"
  by code_simp

lemma example_fallback: "numberToString (Suc 0) = ''1''"
  by (simp add: numberToString.simps digitChar_def)

text \<open>
  Claim C5. For every index and description, a description being present when
  \<^verbatim>\<open>descriptions[index]\<close> is truthy (a string other than the empty one): with a
  description, the file name is the tag \<^verbatim>\<open>law-meme\<close>, a hyphen, then the description in
  lower case, without the characters outside \<^verbatim>\<open>[a-z0-9\s-]\<close>, trimmed, with each run of
  white space turned into one hyphen (\<^const>\<open>collapseWhiteSpaceRuns\<close>, which the scanning
  replacement of the code is shown to equal), cut to its first 30 characters, and
  \<^verbatim>\<open>.png\<close>;
  without one, it is \<^verbatim>\<open>law-meme-\<close>, the decimal numeral of index + 1, and
  \<^verbatim>\<open>.png\<close>. At index 0 the description of the judge gives the body
  \<^verbatim>\<open>a-judge-hammering-a-gavel-with\<close>, and no description gives \<^verbatim>\<open>law-meme-1.png\<close>.
\<close>

theorem computeDownloadFilename_cases:
  "(truthy description \<longrightarrow>
      computeDownloadFilename index description =
        ''law-meme-'' @
        take 30 (collapseWhiteSpaceRuns
                   (trim (filter isFilenameChar (toLowerCase (the description)))))
        @ ''.png'') \<and>
   (\<not> truthy description \<longrightarrow>
      computeDownloadFilename index description =
        ''law-meme-'' @ numberToString (index + 1) @ ''.png'') \<and>
   computeDownloadFilename 0 (Some ''A judge hammering a gavel with 'Motion Denied' text'')
     = ''law-meme-'' @ ''a-judge-hammering-a-gavel-with'' @ ''.png'' \<and>
   computeDownloadFilename 0 None = ''law-meme-1.png''"
proof -
  have "cleanDescription d =
      take 30 (collapseWhiteSpaceRuns (trim (filter isFilenameChar (toLowerCase d))))" for d
    by (simp add: cleanDescription_def removeSpecialChars_def hyphenateWhiteSpace_runs)
  then have a: "truthy description \<longrightarrow>
      computeDownloadFilename index description =
        ''law-meme-'' @
        take 30 (collapseWhiteSpaceRuns
                   (trim (filter isFilenameChar (toLowerCase (the description)))))
        @ ''.png''"
    by (simp add: computeDownloadFilename_def)
  have b: "\<not> truthy description \<longrightarrow>
      computeDownloadFilename index description =
        ''law-meme-'' @ numberToString (index + 1) @ ''.png''"
    by (simp add: computeDownloadFilename_def)
  have c: "computeDownloadFilename 0 (Some ''A judge hammering a gavel with 'Motion Denied' text'')
     = ''law-meme-'' @ ''a-judge-hammering-a-gavel-with'' @ ''.png''"
    by (simp add: computeDownloadFilename_def truthy_def example_judge)
  have d: "computeDownloadFilename 0 None = ''law-meme-1.png''"
    by (simp add: computeDownloadFilename_def truthy_def example_fallback)
  show ?thesis
    by (intro conjI) (rule a b c d)+
qed

theorem computeDownloadFilename_cases_witness:
  "computeDownloadFilename 3 (Some ''Attorney objecting dramatically in court'')
     = ''law-meme-attorney-objecting-dramaticall.png'' \<and>
   computeDownloadFilename 3 None = ''law-meme-4.png''"
proof -
  have a: "truthy (Some ''Attorney objecting dramatically in court'')" "\<not> truthy None"
    by (simp_all add: truthy_def)
  have b: "take 30 (collapseWhiteSpaceRuns (trim (filter isFilenameChar (toLowerCase
      (the (Some ''Attorney objecting dramatically in court'')))))) = ''attorney-objecting-dramaticall''"
    by code_simp
  have c: "numberToString (3 + 1) = ''4''"
    by code_simp
  from computeDownloadFilename_cases [of "Some ''Attorney objecting dramatically in court''" 3,
      THEN conjunct1, THEN mp, OF a(1)]
    computeDownloadFilename_cases [of None 3, THEN conjunct2, THEN conjunct1, THEN mp, OF a(2)]
  show ?thesis
    by (simp only: b c) simp
qed

text \<open>
  Claim C10. For every index and every non-empty description whose cleaned form is empty
  (as it is when no character of the lower-cased description lies in
  \<^verbatim>\<open>[a-z0-9\s-]\<close>, for instance for \<^verbatim>\<open>!!!\<close>), the file name is \<^verbatim>\<open>law-meme-.png\<close>,
  which differs from the index-based name. The index-based name is what an absent and an
  empty description get; every other description gets the name built from its cleaned form.
\<close>

theorem computeDownloadFilename_empty_body:
  "(d \<noteq> [] \<and> cleanDescription d = [] \<longrightarrow>
      computeDownloadFilename index (Some d) = ''law-meme-.png'') \<and>
   ((\<forall>c \<in> set (toLowerCase d). \<not> isFilenameChar c) \<longrightarrow> cleanDescription d = []) \<and>
   computeDownloadFilename index (Some ''!!!'') = ''law-meme-.png'' \<and>
   ''law-meme-.png'' \<noteq> ''law-meme-'' @ numberToString (index + 1) @ ''.png'' \<and>
   (description = None \<or> description = Some [] \<longrightarrow>
      computeDownloadFilename index description =
        ''law-meme-'' @ numberToString (index + 1) @ ''.png'') \<and>
   (description \<noteq> None \<and> description \<noteq> Some [] \<longrightarrow>
      computeDownloadFilename index description =
        ''law-meme-'' @ cleanDescription (the description) @ ''.png'')"
proof -
  have "numberToString (index + 1) @ ''.png'' \<noteq> ''.png''"
    using numberToString_nonempty [of "index + 1"] by simp
  then have "''law-meme-.png'' \<noteq> ''law-meme-'' @ numberToString (index + 1) @ ''.png''"
    by simp
  moreover have "(\<forall>c \<in> set (toLowerCase d). \<not> isFilenameChar c) \<longrightarrow> cleanDescription d = []"
    by (simp add: cleanDescription_nothing_left)
  moreover have "description \<noteq> None \<and> description \<noteq> Some [] \<longrightarrow>
      computeDownloadFilename index description =
        ''law-meme-'' @ cleanDescription (the description) @ ''.png''"
    by (auto simp: computeDownloadFilename_def truthy_def)
  ultimately show ?thesis
    by (auto simp: computeDownloadFilename_def truthy_def example_marks)
qed

theorem computeDownloadFilename_empty_body_witness:
  "computeDownloadFilename 0 (Some ''?! ...'') = ''law-meme-.png'' \<and>
   computeDownloadFilename 0 (Some '''') = ''law-meme-1.png''"
proof -
  have a: "''?! ...'' \<noteq> [] \<and> cleanDescription ''?! ...'' = []"
    by code_simp
  have b: "Some [] = None \<or> Some [] = Some ([] :: string)"
    by simp
  from computeDownloadFilename_empty_body [of "''?! ...''" 0, THEN conjunct1, THEN mp, OF a]
    computeDownloadFilename_empty_body [of _ 0 "Some []", THEN conjunct2, THEN conjunct2,
      THEN conjunct2, THEN conjunct2, THEN conjunct1, THEN mp, OF b]
  show ?thesis
    by (simp add: example_fallback)
qed

subsection \<open>The caption\<close>

lemma matchIgnoreCase_length:
  "matchIgnoreCase p s = Some r \<Longrightarrow> length s = length p + length r"
  by (induction p s rule: matchIgnoreCase.induct) (auto split: if_splits)

lemma length_dropPunctuation: "length (dropPunctuation r) \<le> length r"
  by (cases r) auto

lemma length_behind_punctuation:
  "length (dropWhile isWhiteSpace (dropPunctuation r)) \<le> length r"
  using length_dropWhile_le [of isWhiteSpace "dropPunctuation r"] length_dropPunctuation [of r]
  by linarith

lemma matchSquareimage_shorter:
  assumes "matchSquareimage s = Some r"
  shows "length r < length s"
proof -
  from assms obtain r' where m: "matchIgnoreCase ''squareimage'' s = Some r'"
    and r: "r = dropWhile isWhiteSpace (dropPunctuation r')"
    by (auto simp: matchSquareimage_def split: option.splits)
  from matchIgnoreCase_length [OF m] have "length r' < length s" by simp
  with length_behind_punctuation [of r'] r show ?thesis by simp
qed

lemma matchSquareSpaceImage_shorter:
  assumes "matchSquareSpaceImage s = Some r"
  shows "length r < length s"
proof -
  from assms obtain r1 r2 where m1: "matchIgnoreCase ''square'' s = Some r1"
    and m2: "matchIgnoreCase ''image'' (dropWhile isWhiteSpace r1) = Some r2"
    and r: "r = dropWhile isWhiteSpace (dropPunctuation r2)"
    by (auto simp: matchSquareSpaceImage_def split: option.splits if_splits)
  from matchIgnoreCase_length [OF m1] have "length r1 < length s" by simp
  moreover from matchIgnoreCase_length [OF m2] have "length r2 < length (dropWhile isWhiteSpace r1)"
    by simp
  moreover have "length (dropWhile isWhiteSpace r1) \<le> length r1"
    by (rule length_dropWhile_le)
  ultimately show ?thesis
    using length_behind_punctuation [of r2] r by simp
qed

lemma length_replace_squareimage:
  "length (replaceWithEmpty matchSquareimage s) \<le> length s"
  using matchSquareimage_shorter [of s]
  by (auto simp: replaceWithEmpty_def split: option.splits)

lemma computeDisplayDescription_trimmed:
  "trim (computeDisplayDescription s) = computeDisplayDescription s"
  by (simp add: computeDisplayDescription_def trim_idem)

lemma computeDisplayDescription_shorter:
  assumes "matchSquareSpaceImage t \<noteq> None \<or> matchSquareimage t \<noteq> None"
  shows "length (computeDisplayDescription t) < length t"
proof (cases "matchSquareSpaceImage t")
  case (Some r)
  then have "computeDisplayDescription t = trim (replaceWithEmpty matchSquareimage r)"
    by (simp add: computeDisplayDescription_def replaceWithEmpty_def)
  moreover have "length (trim (replaceWithEmpty matchSquareimage r)) \<le> length r"
    using length_trim [of "replaceWithEmpty matchSquareimage r"] length_replace_squareimage [of r]
    by linarith
  ultimately show ?thesis
    using matchSquareSpaceImage_shorter [OF Some] by simp
next
  case None
  with assms obtain r where r: "matchSquareimage t = Some r" by auto
  with None have "computeDisplayDescription t = trim r"
    by (simp add: computeDisplayDescription_def replaceWithEmpty_def)
  then show ?thesis
    using matchSquareimage_shorter [OF r] length_trim [of r] by simp
qed

lemma canonicalize_lower: "map canonicalize ''squareimg'' = ''SQUAREIMG''"
  by code_simp

lemma canonicalize_upper: "map canonicalize ''SQUAREIMG'' = ''SQUAREIMG''"
  by code_simp

lemmas canonicalize_letters =
  canonicalize_lower [simplified] canonicalize_upper [simplified]

lemma matchSquareSpaceImage_variants:
  "matchSquareSpaceImage (''Square image. '' @ X) = Some (trimStart X)"
  "matchSquareSpaceImage (''Square image '' @ X) = Some (trimStart X)"
  "matchSquareSpaceImage (''square image, '' @ X) = Some (trimStart X)"
  "matchSquareSpaceImage (''SQUARE IMAGE: '' @ X) = Some (trimStart X)"
  "matchSquareSpaceImage (''Square  image   '' @ X) = Some (trimStart X)"
  "matchSquareSpaceImage (''SquareImage '' @ X) = None"
  by (simp_all add: matchSquareSpaceImage_def canonicalize_letters isWhiteSpace_def trimStart_def)

lemma matchSquareimage_variant:
  "matchSquareimage (''SquareImage '' @ X) = Some (trimStart X)"
  by (simp add: matchSquareimage_def canonicalize_letters isWhiteSpace_def trimStart_def)

text \<open>
  Claim C6, as the code has it. For every suffix \<open>X\<close>, \<^verbatim>\<open>SquareImage X\<close> is mapped to
  \<open>X\<close> trimmed; so are \<^verbatim>\<open>Square image. X\<close>, \<^verbatim>\<open>Square image X\<close>,
  \<^verbatim>\<open>square image, X\<close>, \<^verbatim>\<open>SQUARE IMAGE: X\<close> and \<^verbatim>\<open>Square  image   X\<close>, provided
  that \<open>X\<close>, behind its leading white space, does not itself begin with
  \<^verbatim>\<open>squareimage\<close> in some letter case (the second replacement would cut that off as
  well). Hence all six are mapped to exactly \<open>X\<close> when \<open>X\<close> has no white space at either
  end and does not begin with \<^verbatim>\<open>squareimage\<close>.
\<close>

theorem computeDisplayDescription_variants:
  "computeDisplayDescription (''SquareImage '' @ X) = trim X \<and>
   (matchSquareimage (trimStart X) = None \<longrightarrow>
      computeDisplayDescription (''Square image. '' @ X) = trim X \<and>
      computeDisplayDescription (''Square image '' @ X) = trim X \<and>
      computeDisplayDescription (''square image, '' @ X) = trim X \<and>
      computeDisplayDescription (''SQUARE IMAGE: '' @ X) = trim X \<and>
      computeDisplayDescription (''Square  image   '' @ X) = trim X) \<and>
   (trim X = X \<and> matchSquareimage X = None \<longrightarrow>
      computeDisplayDescription (''Square image. '' @ X) = X \<and>
      computeDisplayDescription (''Square image '' @ X) = X \<and>
      computeDisplayDescription (''square image, '' @ X) = X \<and>
      computeDisplayDescription (''SQUARE IMAGE: '' @ X) = X \<and>
      computeDisplayDescription (''SquareImage '' @ X) = X \<and>
      computeDisplayDescription (''Square  image   '' @ X) = X)"
proof -
  have a: "computeDisplayDescription (''SquareImage '' @ X) = trim X"
    unfolding computeDisplayDescription_def replaceWithEmpty_def
    by (simp only: matchSquareSpaceImage_variants matchSquareimage_variant option.case trim_trimStart)
  have b: "computeDisplayDescription v = trim X"
    if "matchSquareSpaceImage v = Some (trimStart X)" "matchSquareimage (trimStart X) = None" for v
    unfolding computeDisplayDescription_def replaceWithEmpty_def
    by (simp only: that option.case trim_trimStart)
  have c: "trimStart X = X" if "trim X = X"
  proof -
    have "trimStart (trimEnd (trimStart X)) = trimEnd (trimStart X)"
      by (rule trimStart_trimEnd_trimStart)
    with that show ?thesis by (simp add: trim_def)
  qed
  have five: "matchSquareimage (trimStart X) = None \<longrightarrow>
      computeDisplayDescription (''Square image. '' @ X) = trim X \<and>
      computeDisplayDescription (''Square image '' @ X) = trim X \<and>
      computeDisplayDescription (''square image, '' @ X) = trim X \<and>
      computeDisplayDescription (''SQUARE IMAGE: '' @ X) = trim X \<and>
      computeDisplayDescription (''Square  image   '' @ X) = trim X"
    using b [OF matchSquareSpaceImage_variants(1)] b [OF matchSquareSpaceImage_variants(2)]
      b [OF matchSquareSpaceImage_variants(3)] b [OF matchSquareSpaceImage_variants(4)]
      b [OF matchSquareSpaceImage_variants(5)]
    by blast
  have six: "trim X = X \<and> matchSquareimage X = None \<longrightarrow>
      computeDisplayDescription (''Square image. '' @ X) = X \<and>
      computeDisplayDescription (''Square image '' @ X) = X \<and>
      computeDisplayDescription (''square image, '' @ X) = X \<and>
      computeDisplayDescription (''SQUARE IMAGE: '' @ X) = X \<and>
      computeDisplayDescription (''SquareImage '' @ X) = X \<and>
      computeDisplayDescription (''Square  image   '' @ X) = X"
  proof (intro impI, elim conjE)
    assume t: "trim X = X" and m: "matchSquareimage X = None"
    from m c [OF t] have "matchSquareimage (trimStart X) = None" by simp
    with five a t show "computeDisplayDescription (''Square image. '' @ X) = X \<and>
      computeDisplayDescription (''Square image '' @ X) = X \<and>
      computeDisplayDescription (''square image, '' @ X) = X \<and>
      computeDisplayDescription (''SQUARE IMAGE: '' @ X) = X \<and>
      computeDisplayDescription (''SquareImage '' @ X) = X \<and>
      computeDisplayDescription (''Square  image   '' @ X) = X"
      by metis
  qed
  show ?thesis
    by (intro conjI) (rule a five six)+
qed

theorem computeDisplayDescription_variants_witness:
  "computeDisplayDescription (''Square image. '' @ ''A judge hammering a gavel'')
     = ''A judge hammering a gavel'' \<and>
   computeDisplayDescription (''Square image '' @ ''A judge hammering a gavel'')
     = ''A judge hammering a gavel'' \<and>
   computeDisplayDescription (''square image, '' @ ''A judge hammering a gavel'')
     = ''A judge hammering a gavel'' \<and>
   computeDisplayDescription (''SQUARE IMAGE: '' @ ''A judge hammering a gavel'')
     = ''A judge hammering a gavel'' \<and>
   computeDisplayDescription (''SquareImage '' @ ''A judge hammering a gavel'')
     = ''A judge hammering a gavel'' \<and>
   computeDisplayDescription (''Square  image   '' @ ''A judge hammering a gavel'')
     = ''A judge hammering a gavel''"
proof -
  have h: "trim ''A judge hammering a gavel'' = ''A judge hammering a gavel'' \<and>
      matchSquareimage ''A judge hammering a gavel'' = None"
    by code_simp
  from computeDisplayDescription_variants [of "''A judge hammering a gavel''",
      THEN conjunct2, THEN conjunct2, THEN mp, OF h]
  show ?thesis .
qed

text \<open>
  Claim C6, as stated for every suffix, fails: the suffix \<^verbatim>\<open>SquareImage rules\<close> behind
  \<^verbatim>\<open>Square image. \<close> loses its own first word too.
\<close>

theorem computeDisplayDescription_strips_twice:
  "computeDisplayDescription (''Square image. '' @ ''SquareImage rules'') = ''rules'' \<and>
   computeDisplayDescription (''Square image. '' @ ''SquareImage rules'') \<noteq> ''SquareImage rules''"
  by code_simp

text \<open>
  Claim C7, as the code has it. Applying the operation to its own output returns that
  output unchanged exactly when the output does not begin with a marker phrase again, that
  is, when neither pattern matches the output.
\<close>

theorem computeDisplayDescription_idempotent_iff:
  "computeDisplayDescription (computeDisplayDescription s) = computeDisplayDescription s
   \<longleftrightarrow> matchSquareSpaceImage (computeDisplayDescription s) = None \<and>
       matchSquareimage (computeDisplayDescription s) = None"
proof
  assume "computeDisplayDescription (computeDisplayDescription s) = computeDisplayDescription s"
  then have "\<not> length (computeDisplayDescription (computeDisplayDescription s))
      < length (computeDisplayDescription s)"
    by simp
  then show "matchSquareSpaceImage (computeDisplayDescription s) = None \<and>
       matchSquareimage (computeDisplayDescription s) = None"
    using computeDisplayDescription_shorter [of "computeDisplayDescription s"] by blast
next
  assume "matchSquareSpaceImage (computeDisplayDescription s) = None \<and>
       matchSquareimage (computeDisplayDescription s) = None"
  then have "computeDisplayDescription (computeDisplayDescription s)
      = trim (computeDisplayDescription s)"
    by (simp add: computeDisplayDescription_def [of "computeDisplayDescription s"] replaceWithEmpty_def)
  then show "computeDisplayDescription (computeDisplayDescription s) = computeDisplayDescription s"
    by (simp add: computeDisplayDescription_trimmed)
qed

theorem computeDisplayDescription_idempotent_iff_witness:
  "computeDisplayDescription (computeDisplayDescription ''Square image. A judge'')
     = computeDisplayDescription ''Square image. A judge''"
proof -
  have h: "matchSquareSpaceImage (computeDisplayDescription ''Square image. A judge'') = None \<and>
      matchSquareimage (computeDisplayDescription ''Square image. A judge'') = None"
    by code_simp
  from computeDisplayDescription_idempotent_iff [THEN iffD2, OF h]
  show ?thesis .
qed

text \<open>
  Claim C7, as stated for every input, fails: of two marker phrases in a row one
  application removes the first and the next application removes the second.
\<close>

theorem computeDisplayDescription_not_idempotent:
  "computeDisplayDescription ''Square image. Square image. X'' = ''Square image. X'' \<and>
   computeDisplayDescription (computeDisplayDescription ''Square image. Square image. X'') = ''X'' \<and>
   computeDisplayDescription (computeDisplayDescription ''Square image. Square image. X'')
     \<noteq> computeDisplayDescription ''Square image. Square image. X''"
  by code_simp

end
